theory Spec2Isabelle
  imports Complex_Main
begin

section \<open>The Telegram scheduler bot: data model\<close>

text \<open>
  The program is one Python module, \<^verbatim>\<open>index.py\<close>. Its state is the module-level
  \<^verbatim>\<open>post_queue = asyncio.Queue()\<close>; everything else it does is an effect on the outside
  world (calls of the bot API, sleeps, log lines, answers to the operator). The model
  threads a \<open>world\<close> through every function: the queue, and the effects so far, in the
  order in which they happened.
\<close>

type_synonym exn = string

text \<open>
  \<^verbatim>\<open>datetime.time\<close>. Python compares two naive times as the tuples
  \<^verbatim>\<open>(hour, minute, second, microsecond)\<close>, lexicographically.
\<close>

record time_of_day =
  hour :: nat
  minute :: nat
  second :: nat
  microsecond :: nat

text \<open>The constructor call \<^verbatim>\<open>time(h, m)\<close>: seconds and microseconds default to 0.\<close>

definition time_hm :: "nat \<Rightarrow> nat \<Rightarrow> time_of_day" where
  "time_hm h m = \<lparr>hour = h, minute = m, second = 0, microsecond = 0\<rparr>"

definition START_TIME :: time_of_day where
  "START_TIME = time_hm 8 0"

definition END_TIME :: time_of_day where
  "END_TIME = time_hm 22 0"

definition POSTS_PER_DAY :: int where
  "POSTS_PER_DAY = 10"

text \<open>\<^verbatim>\<open>a <= b\<close> on times.\<close>

definition time_le :: "time_of_day \<Rightarrow> time_of_day \<Rightarrow> bool" where
  "time_le a b \<longleftrightarrow>
     hour a < hour b \<or>
     (hour a = hour b \<and>
       (minute a < minute b \<or>
       (minute a = minute b \<and>
         (second a < second b \<or>
         (second a = second b \<and> microsecond a \<le> microsecond b)))))"

text \<open>
  The fields of a \<^verbatim>\<open>datetime.time\<close> are in range by construction (the constructor
  raises \<^verbatim>\<open>ValueError\<close> otherwise).
\<close>

definition valid_time :: "time_of_day \<Rightarrow> bool" where
  "valid_time t \<longleftrightarrow>
     hour t < 24 \<and> minute t < 60 \<and> second t < 60 \<and> microsecond t < 1000000"

text \<open>The instant of the day a time denotes, in microseconds since midnight.\<close>

definition instant :: "time_of_day \<Rightarrow> nat" where
  "instant t = ((hour t * 60 + minute t) * 60 + second t) * 1000000 + microsecond t"

text \<open>The same instant in seconds since midnight, as a rational number.\<close>

definition seconds_since_midnight :: "time_of_day \<Rightarrow> rat" where
  "seconds_since_midnight t = of_nat (instant t) / 1000000"

text \<open>
  A queued post: the dictionaries built by \<^verbatim>\<open>handle_new_post\<close>,
  \<^verbatim>\<open>{"type": "photo", "file_id": f, "caption": c}\<close> and
  \<^verbatim>\<open>{"type": "text", "content": t}\<close>.
\<close>

datatype post_data = Photo string string | Text string

text \<open>
  The two bot API calls of \<^verbatim>\<open>send_post_to_channel\<close>; the destination is always
  \<^verbatim>\<open>CHANNEL_ID\<close>.
\<close>

datatype api_call = SendPhoto string string | SendMessage string

text \<open>
  The three answers of \<^verbatim>\<open>handle_new_post\<close> to the sender: not allowed (line 34),
  queued with the queue size (line 44), unsupported message type (line 46).
\<close>

datatype answer = NotAllowed | Queued nat | Unsupported

text \<open>The log lines of the module, one constructor per \<^verbatim>\<open>logging\<close> call.\<close>

datatype log_entry =
    PostSentToChannel
  | ErrorSendingPost exn
  | PostSentByScheduler rat
  | SchedulerWaiting
  | ErrorInSchedulerLoop exn
  | EndpointPostSent
  | EndpointQueueEmpty
  | ErrorInEndpoint exn

text \<open>
  One effect on the outside world. \<open>Call c out\<close> is a call of the bot API together with
  what came back: \<open>None\<close> when the call succeeded, \<open>Some e\<close> when it raised \<open>e\<close>.
\<close>

datatype event =
    Call api_call "exn option"
  | Sleep nat
  | Log log_entry
  | Answer answer

record world =
  post_queue :: "post_data list"
  trace :: "event list"

text \<open>
  How a coroutine ends: it returns a value, it raises an exception (an
  \<^verbatim>\<open>Exception\<close>, the class the module's handlers catch), or it stays suspended forever
  (\<^verbatim>\<open>await post_queue.get()\<close> on an empty queue that nobody fills).
\<close>

datatype 'a result = Return 'a world | Raise exn world | Pending

text \<open>The part of \<^verbatim>\<open>aiogram.types.Message\<close> the handler reads.\<close>

record photo_size =
  file_id :: string

record message =
  from_user_id :: int
  msg_photo :: "photo_size list option"
  msg_caption :: "string option"
  msg_text :: "string option"

section \<open>Effects\<close>

definition emit :: "event \<Rightarrow> world \<Rightarrow> world" where
  "emit ev s = s\<lparr>trace := trace s @ [ev]\<rparr>"

text \<open>\<^verbatim>\<open>await asyncio.sleep(n)\<close>\<close>

definition sleep :: "nat \<Rightarrow> world \<Rightarrow> world" where
  "sleep n s = emit (Sleep n) s"

definition logging :: "log_entry \<Rightarrow> world \<Rightarrow> world" where
  "logging l s = emit (Log l) s"

text \<open>\<^verbatim>\<open>await message.answer(...)\<close>\<close>

definition message_answer :: "answer \<Rightarrow> world \<Rightarrow> world" where
  "message_answer a s = emit (Answer a) s"

text \<open>
  \<^verbatim>\<open>await bot.send_photo(...)\<close> and \<^verbatim>\<open>await bot.send_message(...)\<close>: the call is
  recorded with its outcome, which the network decides.
\<close>

definition bot_call :: "exn option \<Rightarrow> api_call \<Rightarrow> world \<Rightarrow> unit result" where
  "bot_call out c s =
     (case out of
        None \<Rightarrow> Return () (emit (Call c None) s)
      | Some e \<Rightarrow> Raise e (emit (Call c (Some e)) s))"

text \<open>The bot API calls made in a trace.\<close>

fun calls :: "event list \<Rightarrow> api_call list" where
  "calls [] = []"
| "calls (Call c out # evs) = c # calls evs"
| "calls (_ # evs) = calls evs"

section \<open>The post queue\<close>

text \<open>
  \<^verbatim>\<open>asyncio.Queue()\<close> with no \<^verbatim>\<open>maxsize\<close>: \<^verbatim>\<open>put\<close> appends on the right of a deque
  and never waits, \<^verbatim>\<open>get\<close> pops on the left and waits while the queue is empty.
\<close>

definition queue_put :: "post_data \<Rightarrow> world \<Rightarrow> world" where
  "queue_put p s = s\<lparr>post_queue := post_queue s @ [p]\<rparr>"

text \<open>\<open>None\<close>: the queue is empty and the caller stays suspended.\<close>

definition queue_get :: "world \<Rightarrow> (post_data \<times> world) option" where
  "queue_get s =
     (case post_queue s of
        [] \<Rightarrow> None
      | p # ps \<Rightarrow> Some (p, s\<lparr>post_queue := ps\<rparr>))"

definition queue_empty :: "world \<Rightarrow> bool" where
  "queue_empty s \<longleftrightarrow> post_queue s = []"

definition qsize :: "world \<Rightarrow> nat" where
  "qsize s = length (post_queue s)"

text \<open>
  The guarded removal both dispatch paths use (lines 70-71 and 115-116):
  \<^verbatim>\<open>if not post_queue.empty(): post = await post_queue.get()\<close>.
\<close>

definition try_dequeue :: "world \<Rightarrow> post_data option \<times> world" where
  "try_dequeue s =
     (if \<not> queue_empty s then
        (case queue_get s of
           Some (p, s') \<Rightarrow> (Some p, s')
         | None \<Rightarrow> (None, s))
      else (None, s))"

text \<open>A sequence of \<^verbatim>\<open>put\<close> calls, and \<open>n\<close> guarded removals in a row with what each returned.\<close>

fun enqueue_all :: "post_data list \<Rightarrow> world \<Rightarrow> world" where
  "enqueue_all [] s = s"
| "enqueue_all (p # ps) s = enqueue_all ps (queue_put p s)"

fun dequeue_n :: "nat \<Rightarrow> world \<Rightarrow> post_data option list \<times> world" where
  "dequeue_n 0 s = ([], s)"
| "dequeue_n (Suc n) s =
     (case try_dequeue s of
        (r, s') \<Rightarrow> (case dequeue_n n s' of (rs, s'') \<Rightarrow> (r # rs, s'')))"

section \<open>The active window\<close>

text \<open>Line 70, first conjunct: \<^verbatim>\<open>START_TIME <= now_time <= END_TIME\<close>.\<close>

definition is_within_window :: "time_of_day \<Rightarrow> time_of_day \<Rightarrow> time_of_day \<Rightarrow> bool" where
  "is_within_window start_time end_time now_time \<longleftrightarrow>
     time_le start_time now_time \<and> time_le now_time end_time"

subsection \<open>Python's true division of integers\<close>

text \<open>
  Line 67 divides two \<^verbatim>\<open>int\<close>s with \<^verbatim>\<open>/\<close>. The result is a \<^verbatim>\<open>float\<close>, an IEEE 754
  double: the exact quotient rounded to the nearest double, ties to the even mantissa.
  A double is \<open>m * 2 ^ q\<close> with a mantissa \<open>m\<close> below \<open>2 ^ 53\<close> and \<open>q\<close> from \<open>- 1074\<close> on,
  and it is below \<open>2 ^ 1024\<close>. The model computes that double as a rational number.
\<close>

text \<open>\<^verbatim>\<open>int.bit_length()\<close>: the number of binary digits of \<open>n\<close>.\<close>

fun bit_length :: "nat \<Rightarrow> nat" where
  "bit_length n = (if n = 0 then 0 else Suc (bit_length (n div 2)))"

declare bit_length.simps [simp del]

text \<open>\<open>y * 2 ^ d \<le> x\<close> for an exponent \<open>d\<close> of either sign, in integers.\<close>

definition scaled_le :: "int \<Rightarrow> int \<Rightarrow> int \<Rightarrow> bool" where
  "scaled_le y d x \<longleftrightarrow> (if 0 \<le> d then y * 2 ^ nat d \<le> x else y \<le> x * 2 ^ nat (- d))"

text \<open>The integer nearest to \<open>num / den\<close> for \<open>den > 0\<close>, the even one of two equally near.\<close>

definition round_half_even :: "int \<Rightarrow> int \<Rightarrow> int" where
  "round_half_even num den =
     (let fl = num div den; r = num mod den
      in if 2 * r < den then fl
         else if den < 2 * r then fl + 1
         else if even fl then fl else fl + 1)"

text \<open>
  \<^verbatim>\<open>a / b\<close> on \<^verbatim>\<open>int\<close>s. With \<open>2 ^ e \<le> |a / b| < 2 ^ (e + 1)\<close>, the doubles around the
  quotient are the multiples of \<open>2 ^ q\<close> for \<open>q = max (e - 52) (- 1074)\<close> (the second
  bound is the spacing of the subnormal doubles), and the result is the nearest of them.
  Python raises \<^verbatim>\<open>ZeroDivisionError\<close> for \<open>b = 0\<close> and \<^verbatim>\<open>OverflowError\<close> when the rounded
  quotient is no finite double. The sign of a zero result is not kept.
\<close>

definition true_div :: "int \<Rightarrow> int \<Rightarrow> exn + rat" where
  "true_div a b =
     (if b = 0 then Inl ''ZeroDivisionError''
      else if a = 0 then Inr 0
      else
        (let x = \<bar>a\<bar>; y = \<bar>b\<bar>;
             d = int (bit_length (nat x)) - int (bit_length (nat y));
             e = (if scaled_le y d x then d else d - 1);
             q = max (e - 52) (- 1074);
             m = (if 0 \<le> q then round_half_even x (y * 2 ^ nat q)
                  else round_half_even (x * 2 ^ nat (- q)) y);
             r = (if 0 \<le> q then of_int (m * 2 ^ nat q)
                  else of_int m / of_int (2 ^ nat (- q)))
         in if 2 ^ 1024 \<le> r then Inl ''OverflowError''
            else Inr (if (a < 0) = (b < 0) then r else - r)))"

subsection \<open>The dispatch interval\<close>

text \<open>
  Lines 63-67. The two totals are built from the \<^verbatim>\<open>hour\<close> and \<^verbatim>\<open>minute\<close> fields; the
  quotient is Python's true division, the fallback is the \<^verbatim>\<open>int\<close> 3600. An exception of
  the division would be raised inside the \<^verbatim>\<open>try\<close> of the loop.
\<close>

definition dispatch_interval :: "time_of_day \<Rightarrow> time_of_day \<Rightarrow> int \<Rightarrow> exn + rat" where
  "dispatch_interval start_time end_time posts_per_day =
     (let start_total_seconds = int (hour start_time) * 3600 + int (minute start_time) * 60;
          end_total_seconds = int (hour end_time) * 3600 + int (minute end_time) * 60;
          total_seconds_in_day = end_total_seconds - start_total_seconds
      in if posts_per_day > 0
         then true_div total_seconds_in_day posts_per_day
         else Inr 3600)"

text \<open>
  The seconds from midnight to the start of the minute a time lies in: what lines 63-64
  compute for each bound.
\<close>

definition hm_seconds :: "time_of_day \<Rightarrow> int" where
  "hm_seconds t = int (hour t) * 3600 + int (minute t) * 60"

section \<open>The submission handler\<close>

text \<open>Python's truth value of an optional string or list: present and not empty.\<close>

definition truthy :: "'a list option \<Rightarrow> bool" where
  "truthy x = (case x of None \<Rightarrow> False | Some v \<Rightarrow> v \<noteq> [])"

text \<open>\<^verbatim>\<open>message.caption or ""\<close>\<close>

definition caption_or_empty :: "string option \<Rightarrow> string" where
  "caption_or_empty c = (if truthy c then the c else [])"

text \<open>Lines 36-40: the post built from a message, \<open>None\<close> when it has neither photo nor text.\<close>

definition build_post_data :: "message \<Rightarrow> post_data option" where
  "build_post_data m =
     (if truthy (msg_photo m)
      then Some (Photo (file_id (last (the (msg_photo m)))) (caption_or_empty (msg_caption m)))
      else if truthy (msg_text m)
      then Some (Text (the (msg_text m)))
      else None)"

text \<open>Lines 32-46; \<open>admin_id\<close> is \<^verbatim>\<open>ADMIN_ID\<close>, read from the environment.\<close>

definition handle_new_post :: "int \<Rightarrow> message \<Rightarrow> world \<Rightarrow> world" where
  "handle_new_post admin_id m s =
     (if from_user_id m \<noteq> admin_id then message_answer NotAllowed s
      else
        (case build_post_data m of
           Some post \<Rightarrow>
             (let s1 = queue_put post s in message_answer (Queued (qsize s1)) s1)
         | None \<Rightarrow> message_answer Unsupported s))"

section \<open>The dispatcher\<close>

text \<open>Lines 50-54, the body of the \<^verbatim>\<open>try\<close>.\<close>

definition send_post_try :: "exn option \<Rightarrow> post_data \<Rightarrow> world \<Rightarrow> unit result" where
  "send_post_try out post s =
     (case (case post of
              Photo f c \<Rightarrow> bot_call out (SendPhoto f c) s
            | Text t \<Rightarrow> bot_call out (SendMessage t) s) of
        Return _ s1 \<Rightarrow> Return () (logging PostSentToChannel s1)
      | Raise e s1 \<Rightarrow> Raise e s1
      | Pending \<Rightarrow> Pending)"

text \<open>Lines 55-58, the handler of \<^verbatim>\<open>except Exception as e\<close>.\<close>

definition send_post_except :: "exn \<Rightarrow> post_data \<Rightarrow> world \<Rightarrow> unit result" where
  "send_post_except e post s =
     Return () (queue_put post (sleep 5 (logging (ErrorSendingPost e) s)))"

text \<open>Lines 48-58; \<open>out\<close> is the outcome of the one bot API call the function makes.\<close>

definition send_post_to_channel :: "exn option \<Rightarrow> post_data \<Rightarrow> world \<Rightarrow> unit result" where
  "send_post_to_channel out post s =
     (case send_post_try out post s of
        Return u s1 \<Rightarrow> Return u s1
      | Raise e s1 \<Rightarrow> send_post_except e post s1
      | Pending \<Rightarrow> Pending)"

text \<open>The bot API call a post is published with (the dispatch on \<^verbatim>\<open>post_data["type"]\<close>).\<close>

fun api_call_of :: "post_data \<Rightarrow> api_call" where
  "api_call_of (Photo f c) = SendPhoto f c"
| "api_call_of (Text t) = SendMessage t"

section \<open>The scheduler loop\<close>

text \<open>
  What one iteration of the loop gets from outside: the reading of the clock at line 69
  and the outcome of the bot API call, if the iteration makes one. The module wraps the
  iteration in \<^verbatim>\<open>try ... except Exception\<close>. What the bot API raises is caught by the
  delivery itself, the division of line 67 raises nothing at the module's constants, and
  the other statements of the block (queue operations, logging, sleeping) raise nothing;
  an unexpected exception of the block is therefore modelled at its one reading of the
  outside world, the clock (\<open>Inl e\<close>).
\<close>

record env =
  clock :: "exn + time_of_day"
  publish :: "exn option"

text \<open>Lines 63-76, the body of the \<^verbatim>\<open>try\<close>.\<close>

definition scheduler_try :: "env \<Rightarrow> world \<Rightarrow> unit result" where
  "scheduler_try ev s =
     (case dispatch_interval START_TIME END_TIME POSTS_PER_DAY of
        Inl e \<Rightarrow> Raise e s
      | Inr interval \<Rightarrow>
          (case clock ev of
             Inl e \<Rightarrow> Raise e s
           | Inr now_time \<Rightarrow>
               if is_within_window START_TIME END_TIME now_time \<and> \<not> queue_empty s then
                 (case queue_get s of
                    None \<Rightarrow> Pending
                  | Some (post, s1) \<Rightarrow>
                      (case send_post_to_channel (publish ev) post s1 of
                         Return _ s2 \<Rightarrow>
                           Return () (logging (PostSentByScheduler interval) s2)
                       | Raise e s2 \<Rightarrow> Raise e s2
                       | Pending \<Rightarrow> Pending))
               else Return () (sleep 30 (logging SchedulerWaiting s))))"

text \<open>Lines 79-81, the handler of \<^verbatim>\<open>except Exception as e\<close>.\<close>

definition scheduler_except :: "exn \<Rightarrow> world \<Rightarrow> unit result" where
  "scheduler_except e s = Return () (sleep 60 (logging (ErrorInSchedulerLoop e) s))"

text \<open>One pass through the body of \<^verbatim>\<open>while True\<close> (lines 62-81).\<close>

definition scheduler_iteration :: "env \<Rightarrow> world \<Rightarrow> unit result" where
  "scheduler_iteration ev s =
     (case scheduler_try ev s of
        Return u s1 \<Rightarrow> Return u s1
      | Raise e s1 \<Rightarrow> scheduler_except e s1
      | Pending \<Rightarrow> Pending)"

text \<open>
  Lines 60-81. The loop has no \<^verbatim>\<open>break\<close> and no \<^verbatim>\<open>return\<close>: it can only end by an
  exception that escapes an iteration, and the result is then that exception. \<open>None\<close>
  is the loop that never ends. \<open>evs i\<close> is what iteration \<open>i\<close> gets from outside.
\<close>

partial_function (option) scheduler :: "(nat \<Rightarrow> env) \<Rightarrow> nat \<Rightarrow> world \<Rightarrow> (exn \<times> world) option" where
  "scheduler evs i s =
     (case scheduler_iteration (evs i) s of
        Return _ s1 \<Rightarrow> scheduler evs (Suc i) s1
      | Raise e s1 \<Rightarrow> Some (e, s1)
      | Pending \<Rightarrow> None)"

text \<open>The first \<open>n\<close> iterations of the same loop.\<close>

fun scheduler_steps :: "nat \<Rightarrow> (nat \<Rightarrow> env) \<Rightarrow> nat \<Rightarrow> world \<Rightarrow> unit result" where
  "scheduler_steps 0 evs i s = Return () s"
| "scheduler_steps (Suc n) evs i s =
     (case scheduler_iteration (evs i) s of
        Return _ s1 \<Rightarrow> scheduler_steps n evs (Suc i) s1
      | Raise e s1 \<Rightarrow> Raise e s1
      | Pending \<Rightarrow> Pending)"

section \<open>The manual trigger\<close>

text \<open>
  The bodies the endpoint \<^verbatim>\<open>/run-scheduler\<close> answers with:
  \<^verbatim>\<open>{"status": "Post sent from queue", "queue_size": n}\<close>,
  \<^verbatim>\<open>{"status": "Queue is empty"}\<close>, and the response with status code 500.
\<close>

datatype response = PostSentFromQueue nat | QueueIsEmpty | Error500 exn

text \<open>Lines 115-122, the body of the \<^verbatim>\<open>try\<close>.\<close>

definition run_scheduler_try :: "exn option \<Rightarrow> world \<Rightarrow> response result" where
  "run_scheduler_try out s =
     (if \<not> queue_empty s then
        (case queue_get s of
           None \<Rightarrow> Pending
         | Some (post, s1) \<Rightarrow>
             (case send_post_to_channel out post s1 of
                Return _ s2 \<Rightarrow>
                  (let s3 = logging EndpointPostSent s2
                   in Return (PostSentFromQueue (qsize s3)) s3)
              | Raise e s2 \<Rightarrow> Raise e s2
              | Pending \<Rightarrow> Pending))
      else Return QueueIsEmpty (logging EndpointQueueEmpty s))"

text \<open>Lines 113-125; \<open>out\<close> is the outcome of the bot API call, if one is made.\<close>

definition run_scheduler_endpoint :: "exn option \<Rightarrow> world \<Rightarrow> response result" where
  "run_scheduler_endpoint out s =
     (case run_scheduler_try out s of
        Return r s1 \<Rightarrow> Return r s1
      | Raise e s1 \<Rightarrow> Return (Error500 e) (logging (ErrorInEndpoint e) s1)
      | Pending \<Rightarrow> Pending)"

section \<open>Properties of the post queue\<close>

lemma try_dequeue_Nil: "post_queue s = [] \<Longrightarrow> try_dequeue s = (None, s)"
  by (simp add: try_dequeue_def queue_empty_def)

lemma try_dequeue_Cons:
  "post_queue s = p # ps \<Longrightarrow> try_dequeue s = (Some p, s\<lparr>post_queue := ps\<rparr>)"
  by (simp add: try_dequeue_def queue_empty_def queue_get_def)

lemma post_queue_enqueue_all: "post_queue (enqueue_all ps s) = post_queue s @ ps"
  by (induction ps arbitrary: s) (simp_all add: queue_put_def)

lemma dequeue_n_empty:
  "post_queue s = [] \<Longrightarrow> dequeue_n k s = (replicate k None, s)"
  by (induction k) (simp_all add: try_dequeue_Nil)

lemma dequeue_n_queue:
  "post_queue s = ps \<Longrightarrow>
   dequeue_n (length ps + k) s = (map Some ps @ replicate k None, s\<lparr>post_queue := []\<rparr>)"
proof (induction ps arbitrary: s)
  case Nil
  then show ?case by (simp add: dequeue_n_empty)
next
  case (Cons p ps)
  have "post_queue (s\<lparr>post_queue := ps\<rparr>) = ps" by simp
  from Cons.IH [OF this] Cons.prems show ?case
    by (simp add: try_dequeue_Cons)
qed

text \<open>
  C3. Whatever sequence of posts is put on the (initially empty) queue, the guarded
  removals that follow return exactly these posts, in the order in which they were put,
  and every removal after the last of them returns nothing.
\<close>

theorem C3_queue_is_fifo:
  "fst (dequeue_n (length ps + k) (enqueue_all ps (s\<lparr>post_queue := []\<rparr>)))
     = map Some ps @ replicate k None"
proof -
  have "post_queue (enqueue_all ps (s\<lparr>post_queue := []\<rparr>)) = ps"
    by (simp add: post_queue_enqueue_all)
  from dequeue_n_queue [OF this] show ?thesis by simp
qed

section \<open>Properties of the active window\<close>

text \<open>
  On times whose fields are in range, the tuple comparison of Python is the comparison of
  the instants they denote.
\<close>

lemma time_le_instant:
  "valid_time a \<Longrightarrow> valid_time b \<Longrightarrow> time_le a b \<longleftrightarrow> instant a \<le> instant b"
  unfolding valid_time_def time_le_def instant_def by auto

lemma window_bounds:
  "is_within_window START_TIME END_TIME START_TIME \<and>
   is_within_window START_TIME END_TIME END_TIME"
  by (simp add: is_within_window_def time_le_def START_TIME_def END_TIME_def time_hm_def)

text \<open>
  C4. The window test holds exactly for the times \<open>now\<close> with
  \<open>start \<le> now \<le> end\<close> as instants of the day, and both bounds are inside: the test holds
  at \<open>START_TIME\<close> and at \<open>END_TIME\<close> themselves.
\<close>

theorem C4_window_is_inclusive:
  assumes "valid_time start_time" and "valid_time end_time" and "valid_time now_time"
  shows "(is_within_window start_time end_time now_time \<longleftrightarrow>
            instant start_time \<le> instant now_time \<and> instant now_time \<le> instant end_time)
         \<and> is_within_window START_TIME END_TIME START_TIME
         \<and> is_within_window START_TIME END_TIME END_TIME"
  using assms window_bounds by (simp add: is_within_window_def time_le_instant)

text \<open>At 22:00:00 the window is still open; one microsecond later it is closed.\<close>

theorem C4_window_is_inclusive_witness:
  "valid_time START_TIME \<and> valid_time END_TIME
   \<and> valid_time \<lparr>hour = 22, minute = 0, second = 0, microsecond = 1\<rparr>
   \<and> is_within_window START_TIME END_TIME END_TIME
   \<and> \<not> is_within_window START_TIME END_TIME
         \<lparr>hour = 22, minute = 0, second = 0, microsecond = 1\<rparr>"
proof -
  have v: "valid_time START_TIME" "valid_time END_TIME"
    "valid_time \<lparr>hour = 22, minute = 0, second = 0, microsecond = 1\<rparr>"
    by (simp_all add: valid_time_def START_TIME_def END_TIME_def time_hm_def)
  from C4_window_is_inclusive [OF v] v show ?thesis
    by (simp add: instant_def START_TIME_def END_TIME_def time_hm_def)
qed

section \<open>Properties of Python's true division\<close>

lemma bit_length_upper: "n < 2 ^ bit_length n"
proof (induction n rule: bit_length.induct)
  case (1 n)
  show ?case
  proof (cases "n = 0")
    case True
    then show ?thesis by (simp add: bit_length.simps)
  next
    case False
    with 1 have "n div 2 < 2 ^ bit_length (n div 2)" by simp
    then have "n < 2 * 2 ^ bit_length (n div 2)" by linarith
    with False show ?thesis by (subst bit_length.simps) simp
  qed
qed

lemma bit_length_pos: "0 < n \<Longrightarrow> 0 < bit_length n"
  by (subst bit_length.simps) simp

lemma bit_length_lower: "0 < n \<Longrightarrow> 2 ^ (bit_length n - 1) \<le> n"
proof (induction n rule: bit_length.induct)
  case (1 n)
  then have n: "n \<noteq> 0" by simp
  have bl: "bit_length n = Suc (bit_length (n div 2))"
    using n by (subst bit_length.simps) simp
  show ?case
  proof (cases "n div 2 = 0")
    case True
    then have "bit_length (n div 2) = 0" by (simp add: bit_length.simps)
    with bl 1 show ?thesis by simp
  next
    case False
    then have pos: "0 < n div 2" by simp
    from 1(1) [OF n pos] have "2 ^ (bit_length (n div 2) - 1) \<le> n div 2" .
    then have "2 * 2 ^ (bit_length (n div 2) - 1) \<le> n" by linarith
    moreover have "2 * (2::nat) ^ (bit_length (n div 2) - 1) = 2 ^ bit_length (n div 2)"
      using bit_length_pos [OF pos] by (cases "bit_length (n div 2)") simp_all
    ultimately show ?thesis using bl by simp
  qed
qed

lemma of_nat_bit_length_upper: "(of_nat n :: rat) < 2 ^ bit_length n"
proof -
  have "(of_nat n :: rat) < of_nat (2 ^ bit_length n)"
    using bit_length_upper [of n] by (simp only: of_nat_less_iff)
  then show ?thesis by simp
qed

lemma of_nat_bit_length_lower: "0 < n \<Longrightarrow> (2::rat) ^ (bit_length n - 1) \<le> of_nat n"
proof -
  assume "0 < n"
  then have "(of_nat (2 ^ (bit_length n - 1)) :: rat) \<le> of_nat n"
    using bit_length_lower [of n] by (simp only: of_nat_le_iff)
  then show ?thesis by simp
qed

text \<open>The difference of the bit lengths locates the quotient within a factor of four.\<close>

lemma ratio_bounds:
  assumes "0 < xn" and "0 < yn"
  defines "d \<equiv> int (bit_length xn) - int (bit_length yn)"
  shows "power_int (2::rat) (d - 1) < of_nat xn / of_nat yn"
    and "of_nat xn / of_nat yn < power_int (2::rat) (d + 1)"
proof -
  let ?bx = "bit_length xn" and ?by = "bit_length yn"
  have bx: "0 < ?bx" and "by": "0 < ?by" using assms by (simp_all add: bit_length_pos)
  have x1: "(of_nat xn :: rat) < 2 ^ ?bx" by (rule of_nat_bit_length_upper)
  have x2: "(2::rat) ^ (?bx - 1) \<le> of_nat xn" by (rule of_nat_bit_length_lower [OF assms(1)])
  have y1: "(of_nat yn :: rat) < 2 ^ ?by" by (rule of_nat_bit_length_upper)
  have y2: "(2::rat) ^ (?by - 1) \<le> of_nat yn" by (rule of_nat_bit_length_lower [OF assms(2)])
  have "d - 1 = int (?bx - 1) - int ?by" using bx by (simp add: d_def)
  then have "power_int (2::rat) (d - 1) = 2 ^ (?bx - 1) / 2 ^ ?by"
    by (simp add: power_int_diff)
  also have "\<dots> < of_nat xn / of_nat yn"
    using x2 y1 assms by (intro frac_less2) simp_all
  finally show "power_int (2::rat) (d - 1) < of_nat xn / of_nat yn" .
  have "d + 1 = int ?bx - int (?by - 1)" using "by" by (simp add: d_def)
  then have "power_int (2::rat) (d + 1) = 2 ^ ?bx / 2 ^ (?by - 1)"
    by (simp add: power_int_diff)
  moreover have "of_nat xn / of_nat yn < (2::rat) ^ ?bx / 2 ^ (?by - 1)"
    using x1 y2 assms by (intro frac_less) simp_all
  ultimately show "of_nat xn / of_nat yn < power_int (2::rat) (d + 1)" by simp
qed

lemma scaled_le_iff:
  assumes "0 < y"
  shows "scaled_le y d x \<longleftrightarrow> power_int (2::rat) d \<le> of_int x / of_int y"
proof (cases "0 \<le> d")
  case True
  have "y * 2 ^ nat d \<le> x \<longleftrightarrow> (of_int (y * 2 ^ nat d) :: rat) \<le> of_int x"
    by (simp only: of_int_le_iff)
  also have "\<dots> \<longleftrightarrow> (2::rat) ^ nat d \<le> of_int x / of_int y"
    using assms by (simp add: field_simps)
  finally show ?thesis using True by (simp add: scaled_le_def power_int_def)
next
  case False
  have "y \<le> x * 2 ^ nat (- d) \<longleftrightarrow> (of_int y :: rat) \<le> of_int (x * 2 ^ nat (- d))"
    by (simp only: of_int_le_iff)
  also have "\<dots> \<longleftrightarrow> inverse (2::rat) ^ nat (- d) \<le> of_int x / of_int y"
    using assms by (simp add: field_simps power_inverse)
  finally show ?thesis using False by (simp add: scaled_le_def power_int_def)
qed

lemma scaled_quotient:
  assumes "0 < y"
  shows "(if 0 \<le> q then of_int x / of_int (y * 2 ^ nat q)
          else of_int (x * 2 ^ nat (- q)) / of_int y)
         = (of_int x / of_int y :: rat) / power_int 2 q"
  using assms by (simp add: power_int_def field_simps power_inverse)

lemma scaled_value:
  "(if 0 \<le> q then of_int (m * 2 ^ nat q) else of_int m / of_int (2 ^ nat (- q)))
     = (of_int m :: rat) * power_int 2 q"
  by (simp add: power_int_def field_simps power_inverse)

text \<open>Rounding moves a quotient by at most one half.\<close>

lemma round_half_even_near:
  assumes "0 < den"
  shows "\<bar>of_int (round_half_even num den) - (of_int num / of_int den :: rat)\<bar> \<le> 1 / 2"
proof -
  define fl where "fl = num div den"
  define r where "r = num mod den"
  have num: "num = fl * den + r" by (simp add: fl_def r_def)
  have r: "0 \<le> r" "r < den" using assms by (simp_all add: r_def)
  have q: "(of_int num / of_int den :: rat) = of_int fl + of_int r / of_int den"
    using assms by (simp add: num field_simps)
  have d: "(0::rat) < of_int den" using assms by simp
  consider "2 * r < den" | "den < 2 * r" | "2 * r = den" by linarith
  then show ?thesis
  proof cases
    case 1
    then have "round_half_even num den = fl" by (simp add: round_half_even_def fl_def r_def)
    moreover have "(of_int r / of_int den :: rat) \<le> 1 / 2"
      using 1 d by (simp add: field_simps)
    moreover have "(0::rat) \<le> of_int r / of_int den" using r d by simp
    ultimately show ?thesis by (simp add: q)
  next
    case 2
    then have "round_half_even num den = fl + 1" by (simp add: round_half_even_def fl_def r_def)
    moreover have "(1 / 2 :: rat) \<le> of_int r / of_int den"
      using 2 d by (simp add: field_simps)
    moreover have "(of_int r / of_int den :: rat) \<le> 1" using r d by (simp add: field_simps)
    ultimately show ?thesis by (simp add: q)
  next
    case 3
    then have "(of_int r / of_int den :: rat) = 1 / 2"
      using d by (simp add: field_simps)
    with q have q2: "(of_int num / of_int den :: rat) = of_int fl + 1 / 2" by simp
    have "round_half_even num den = fl \<or> round_half_even num den = fl + 1"
      by (simp add: round_half_even_def fl_def r_def Let_def)
    then show ?thesis
    proof
      assume "round_half_even num den = fl"
      then show ?thesis unfolding q2 by simp
    next
      assume "round_half_even num den = fl + 1"
      then show ?thesis unfolding q2 by simp
    qed
  qed
qed

text \<open>
  The division of \<open>a \<noteq> 0\<close> by \<open>b > 0\<close>, read off its definition: the exponent \<open>e\<close> of the
  quotient, and the mantissa \<open>m\<close> nearest to the quotient scaled by the spacing.
\<close>

lemma true_div_shape:
  assumes "0 < b" and "a \<noteq> 0"
  defines "X \<equiv> \<bar>of_int a / of_int b :: rat\<bar>"
  shows "\<exists>e m. power_int 2 e \<le> X \<and> X < power_int 2 (e + 1)
           \<and> \<bar>of_int m - X / power_int 2 (max (e - 52) (- 1074))\<bar> \<le> 1 / 2
           \<and> true_div a b =
               (if 2 ^ 1024 \<le> of_int m * power_int (2::rat) (max (e - 52) (- 1074))
                then Inl ''OverflowError''
                else Inr (if 0 \<le> a
                          then of_int m * power_int 2 (max (e - 52) (- 1074))
                          else - (of_int m * power_int 2 (max (e - 52) (- 1074)))))"
proof -
  define x where "x = \<bar>a\<bar>"
  define d where "d = int (bit_length (nat x)) - int (bit_length (nat b))"
  define e where "e = (if scaled_le b d x then d else d - 1)"
  define q where "q = max (e - 52) (- 1074)"
  define m where "m = (if 0 \<le> q then round_half_even x (b * 2 ^ nat q)
                       else round_half_even (x * 2 ^ nat (- q)) b)"
  have x: "0 < x" using assms by (simp add: x_def)
  have X: "X = of_int x / of_int b" using assms by (simp add: X_def x_def abs_divide)
  have nx: "0 < nat x" and nb: "0 < nat b" using x assms by simp_all
  have lo: "power_int (2::rat) (d - 1) < X"
    using ratio_bounds(1) [OF nx nb] x assms by (simp add: X d_def)
  have hi: "X < power_int (2::rat) (d + 1)"
    using ratio_bounds(2) [OF nx nb] x assms by (simp add: X d_def)
  have e1: "power_int 2 e \<le> X"
    using lo scaled_le_iff [OF assms(1), of d x] by (auto simp add: e_def X)
  have e2: "X < power_int 2 (e + 1)"
    using hi scaled_le_iff [OF assms(1), of d x] by (auto simp add: e_def X)
  have m_near: "\<bar>of_int m - X / power_int 2 q\<bar> \<le> 1 / 2"
  proof (cases "0 \<le> q")
    case True
    have pos: "0 < b * 2 ^ nat q" using assms by simp
    have eq: "(of_int x / of_int (b * 2 ^ nat q) :: rat) = X / power_int 2 q"
      using scaled_quotient [OF assms(1), of q x] True unfolding X by (simp only: if_True)
    have m: "m = round_half_even x (b * 2 ^ nat q)" using True by (simp add: m_def)
    from round_half_even_near [OF pos, of x]
    have "\<bar>of_int (round_half_even x (b * 2 ^ nat q)) - X / power_int 2 q\<bar> \<le> 1 / 2"
      by (simp only: eq)
    then show ?thesis by (simp only: m)
  next
    case False
    have eq: "(of_int (x * 2 ^ nat (- q)) / of_int b :: rat) = X / power_int 2 q"
      using scaled_quotient [OF assms(1), of q x] False unfolding X by (simp only: if_False)
    have m: "m = round_half_even (x * 2 ^ nat (- q)) b" using False by (simp add: m_def)
    from round_half_even_near [OF assms(1), of "x * 2 ^ nat (- q)"]
    have "\<bar>of_int (round_half_even (x * 2 ^ nat (- q)) b) - X / power_int 2 q\<bar> \<le> 1 / 2"
      by (simp only: eq)
    then show ?thesis by (simp only: m)
  qed
  have sign: "(a < 0) = (b < 0) \<longleftrightarrow> 0 \<le> a" using assms by auto
  have "true_div a b =
      (if 2 ^ 1024 \<le> of_int m * power_int (2::rat) q then Inl ''OverflowError''
       else Inr (if 0 \<le> a then of_int m * power_int 2 q else - (of_int m * power_int 2 q)))"
    using assms scaled_value [of q m]
    unfolding true_div_def Let_def
    by (simp only: sign x_def [symmetric] abs_of_pos [OF assms(1)] d_def [symmetric]
        e_def [symmetric] q_def [symmetric] m_def [symmetric]) simp
  with e1 e2 m_near show ?thesis unfolding q_def by blast
qed

lemma half_ulp_bound:
  assumes "power_int (2::rat) e \<le> X"
  shows "power_int (2::rat) (max (e - 52) (- 1074)) / 2 \<le> max (X / 2 ^ 53) (1 / 2 ^ 1075)"
proof (cases "- 1074 \<le> e - 52")
  case True
  then have "max (e - 52) (- 1074) = e - 52" by simp
  moreover have "power_int (2::rat) (e - 52) / 2 = power_int 2 e / 2 ^ 53"
    by (simp add: power_int_diff)
  moreover have "power_int (2::rat) e / 2 ^ 53 \<le> X / 2 ^ 53"
    using assms by (simp add: divide_right_mono)
  ultimately show ?thesis by (simp only: max.coboundedI1)
next
  case False
  then have "max (e - 52) (- 1074) = - 1074" by simp
  moreover have "power_int (2::rat) (- 1074) / 2 = 1 / 2 ^ 1075"
    by (simp add: power_int_minus_divide)
  ultimately show ?thesis by (simp only: max.coboundedI2 order_refl)
qed

text \<open>
  The division returns a number within half a spacing of the exact quotient: a relative
  error of at most \<open>2 ^ - 53\<close>, or \<open>2 ^ - 1075\<close> among the subnormal doubles.
\<close>

lemma true_div_near:
  assumes "0 < b" and "\<bar>of_int a / of_int b :: rat\<bar> < 2 ^ 1023"
  shows "\<exists>r. true_div a b = Inr r
           \<and> \<bar>r - of_int a / of_int b\<bar>
               \<le> max (\<bar>of_int a / of_int b\<bar> / 2 ^ 53) (1 / 2 ^ 1075)"
proof (cases "a = 0")
  case True
  with assms show ?thesis by (simp add: true_div_def)
next
  case False
  define X where "X = \<bar>of_int a / of_int b :: rat\<bar>"
  define B where "B = max (X / 2 ^ 53) (1 / 2 ^ 1075 :: rat)"
  from true_div_shape [OF assms(1) False] obtain e m where
    e: "power_int 2 e \<le> X" and
    m: "\<bar>of_int m - X / power_int 2 (max (e - 52) (- 1074))\<bar> \<le> 1 / 2" and
    td: "true_div a b =
           (if 2 ^ 1024 \<le> of_int m * power_int (2::rat) (max (e - 52) (- 1074))
            then Inl ''OverflowError''
            else Inr (if 0 \<le> a
                      then of_int m * power_int 2 (max (e - 52) (- 1074))
                      else - (of_int m * power_int 2 (max (e - 52) (- 1074)))))"
    unfolding X_def by blast
  define P where "P = power_int (2::rat) (max (e - 52) (- 1074))"
  define R where "R = of_int m * P"
  have P: "0 < P" by (simp add: P_def)
  have "\<bar>R - X\<bar> = \<bar>of_int m - X / P\<bar> * P"
    using P by (simp add: R_def abs_mult [symmetric] field_simps)
  also have "\<dots> \<le> 1 / 2 * P"
    using m P unfolding P_def [symmetric] by (intro mult_right_mono) simp_all
  also have "\<dots> \<le> B"
    using half_ulp_bound [OF e] by (simp add: P_def B_def)
  finally have near: "\<bar>R - X\<bar> \<le> B" .
  have X: "X < 2 ^ 1023" using assms by (simp add: X_def)
  have "0 \<le> X" by (simp add: X_def)
  then have "X / 2 ^ 53 \<le> X / 1" by (intro divide_left_mono) simp_all
  then have "B < 2 ^ 1023" using X by (simp add: B_def)
  with near X have "R < 2 ^ 1023 + 2 ^ 1023" by linarith
  then have no_overflow: "\<not> 2 ^ 1024 \<le> R" by simp
  have res: "true_div a b = Inr (if 0 \<le> a then R else - R)"
    using td no_overflow unfolding R_def P_def by simp
  have quot: "of_int a / of_int b = (if 0 \<le> a then X else - X)"
    using assms(1) by (simp add: X_def abs_divide)
  have "\<bar>(if 0 \<le> a then R else - R) - of_int a / of_int b\<bar> = \<bar>R - X\<bar>"
    unfolding quot by (simp add: abs_minus_commute)
  with near res show ?thesis unfolding B_def X_def by simp
qed

text \<open>A quotient that is an integer below \<open>2 ^ 53\<close> is returned as it is.\<close>

lemma true_div_exact:
  assumes "0 < b" and "\<bar>k\<bar> < 2 ^ 53"
  shows "true_div (k * b) b = Inr (of_int k)"
proof (cases "k = 0")
  case True
  with assms show ?thesis by (simp add: true_div_def)
next
  case False
  define X where "X = \<bar>of_int (k * b) / of_int b :: rat\<bar>"
  have X: "X = of_int \<bar>k\<bar>" using assms by (simp add: X_def)
  have nz: "k * b \<noteq> 0" using False assms by simp
  from true_div_shape [OF assms(1) nz] obtain e m where
    e: "power_int 2 e \<le> X" and
    m: "\<bar>of_int m - X / power_int 2 (max (e - 52) (- 1074))\<bar> \<le> 1 / 2" and
    td: "true_div (k * b) b =
           (if 2 ^ 1024 \<le> of_int m * power_int (2::rat) (max (e - 52) (- 1074))
            then Inl ''OverflowError''
            else Inr (if 0 \<le> k * b
                      then of_int m * power_int 2 (max (e - 52) (- 1074))
                      else - (of_int m * power_int 2 (max (e - 52) (- 1074)))))"
    unfolding X_def by blast
  define q where "q = max (e - 52) (- 1074)"
  have "power_int (2::rat) e < power_int 2 53"
    using e assms(2) unfolding X
    by (metis of_int_less_iff of_int_numeral of_int_power power_int_numeral le_less_trans)
  then have "e < 53" using power_int_le_imp_less_exp [of "2::rat" e 53] by simp
  then have q: "q \<le> 0" by (simp add: q_def)
  define s where "s = nat (- q)"
  have P: "power_int (2::rat) q = 1 / 2 ^ s"
    using q by (simp add: s_def power_int_def power_inverse field_simps)
  have "X / power_int 2 q = of_int (\<bar>k\<bar> * 2 ^ s)" by (simp add: X P)
  with m have "\<bar>(of_int m :: rat) - of_int (\<bar>k\<bar> * 2 ^ s)\<bar> \<le> 1 / 2" by (simp only: q_def)
  then have "\<bar>(of_int (m - \<bar>k\<bar> * 2 ^ s) :: rat)\<bar> < 1" by (simp only: of_int_diff)
  then have "\<bar>m - \<bar>k\<bar> * 2 ^ s\<bar> < 1"
    by (metis of_int_abs of_int_less_iff of_int_1)
  then have "m = \<bar>k\<bar> * 2 ^ s" by linarith
  then have R: "of_int m * power_int (2::rat) q = of_int \<bar>k\<bar>" by (simp add: P)
  have "(of_int \<bar>k\<bar> :: rat) < 2 ^ 1024"
  proof -
    have "(of_int \<bar>k\<bar> :: rat) < of_int (2 ^ 53)" using assms(2) by (simp only: of_int_less_iff)
    then show ?thesis by simp
  qed
  then have no_overflow: "\<not> 2 ^ 1024 \<le> (of_int \<bar>k\<bar> :: rat)" by simp
  have sign: "0 \<le> k * b \<longleftrightarrow> 0 \<le> k" using assms(1) by (simp add: zero_le_mult_iff)
  from td R no_overflow show ?thesis
    unfolding q_def [symmetric] by (simp add: sign)
qed

section \<open>Properties of the dispatch interval\<close>

lemma dispatch_interval_eq:
  "dispatch_interval st en n =
     (if 0 < n then true_div (hm_seconds en - hm_seconds st) n else Inr 3600)"
  by (simp add: dispatch_interval_def hm_seconds_def)

lemma hm_seconds_range: "valid_time t \<Longrightarrow> 0 \<le> hm_seconds t \<and> hm_seconds t \<le> 86340"
  by (simp add: valid_time_def hm_seconds_def)

lemma hm_seconds_time_hm:
  "rat_of_int (hm_seconds (time_hm h m)) = seconds_since_midnight (time_hm h m)"
  by (simp add: hm_seconds_def seconds_since_midnight_def instant_def time_hm_def field_simps)

lemma interval_value: "dispatch_interval START_TIME END_TIME POSTS_PER_DAY = Inr 5040"
  using true_div_exact [of 10 5040]
  by (simp add: dispatch_interval_def START_TIME_def END_TIME_def POSTS_PER_DAY_def time_hm_def)

lemma dispatch_interval_near:
  assumes "valid_time st" and "valid_time en" and "0 < n"
  shows "\<exists>r. dispatch_interval st en n = Inr r
           \<and> \<bar>r - rat_of_int (hm_seconds en - hm_seconds st) / rat_of_int n\<bar>
               \<le> max (\<bar>rat_of_int (hm_seconds en - hm_seconds st) / rat_of_int n\<bar> / 2 ^ 53)
                    (1 / 2 ^ 1075)"
proof -
  define a where "a = hm_seconds en - hm_seconds st"
  have "\<bar>a\<bar> \<le> 86340"
    using hm_seconds_range [OF assms(1)] hm_seconds_range [OF assms(2)]
    unfolding a_def by linarith
  then have a: "\<bar>rat_of_int a\<bar> \<le> 86340"
    by (metis of_int_abs of_int_le_iff of_int_numeral)
  have n: "(1::rat) \<le> of_int n" using assms(3) by simp
  have "\<bar>rat_of_int a / rat_of_int n\<bar> = \<bar>rat_of_int a\<bar> / rat_of_int n"
    using n by (simp add: abs_divide)
  also have "\<dots> \<le> \<bar>rat_of_int a\<bar> / 1"
    using n by (intro divide_left_mono) simp_all
  finally have "\<bar>rat_of_int a / rat_of_int n\<bar> \<le> 86340" using a by simp
  then have "\<bar>rat_of_int a / rat_of_int n\<bar> < 2 ^ 1023" by simp
  from true_div_near [OF assms(3) this] assms(3) show ?thesis
    by (simp add: dispatch_interval_eq a_def)
qed

lemma dispatch_interval_exact:
  assumes "valid_time st" and "valid_time en" and "0 < n"
    and "n dvd hm_seconds en - hm_seconds st"
  shows "dispatch_interval st en n =
           Inr (rat_of_int (hm_seconds en - hm_seconds st) / rat_of_int n)"
proof -
  define a where "a = hm_seconds en - hm_seconds st"
  from assms(4) obtain k where k: "a = k * n" by (auto simp add: a_def dvd_def mult.commute)
  have "\<bar>a\<bar> \<le> 86340"
    using hm_seconds_range [OF assms(1)] hm_seconds_range [OF assms(2)]
    unfolding a_def by linarith
  moreover have "\<bar>k\<bar> \<le> \<bar>a\<bar>"
  proof -
    have "\<bar>k\<bar> * 1 \<le> \<bar>k\<bar> * n" using assms(3) by (intro mult_left_mono) simp_all
    then show ?thesis using assms(3) by (simp add: k abs_mult)
  qed
  ultimately have "\<bar>k\<bar> < 2 ^ 53" by simp
  from true_div_exact [OF assms(3) this] assms(3) show ?thesis
    by (simp add: dispatch_interval_eq a_def [symmetric] k)
qed

text \<open>The module's window with 11 posts per day: the quotient is not a double.\<close>

lemma true_div_50400_11: "true_div 50400 11 = Inr (2518881183632291 / 2 ^ 39)"
proof -
  have bl: "bit_length 50400 = 16" "bit_length 11 = 4"
    by (simp_all add: bit_length.simps)
  have sc: "scaled_le 11 12 50400" by (simp add: scaled_le_def)
  have rh: "round_half_even (50400 * 2 ^ 40) 11 = 5037762367264582"
    by (simp add: round_half_even_def Let_def)
  show ?thesis
    using rh by (simp add: true_div_def Let_def bl sc)
qed

text \<open>
  C5 (amended). The dispatch interval reads only the hour and the minute of the two
  bounds of the window. When the number of posts per day is positive it is Python's
  quotient of the seconds between the two whole minutes by that number; for bounds on
  whole minutes, as \<^verbatim>\<open>time(h, m)\<close> builds them, these are the seconds between the bounds
  themselves. The quotient is the exact one up to the rounding of a double (a relative
  error of at most \<open>2 ^ - 53\<close>), and it is the exact one whenever the number of posts
  divides the seconds. When the number of posts per day is not positive the interval is
  3600 seconds. With the module's constants (08:00 to 22:00, 10 posts) it is 5040
  seconds, and with 0 posts per day it is 3600 seconds.
\<close>

theorem C5_dispatch_interval_amended:
  "dispatch_interval st en n =
     (if 0 < n then true_div (hm_seconds en - hm_seconds st) n else Inr 3600)
   \<and> rat_of_int (hm_seconds (time_hm h m)) = seconds_since_midnight (time_hm h m)
   \<and> (valid_time st \<and> valid_time en \<and> 0 < n \<longrightarrow>
        (\<exists>r. dispatch_interval st en n = Inr r
           \<and> \<bar>r - rat_of_int (hm_seconds en - hm_seconds st) / rat_of_int n\<bar>
               \<le> max (\<bar>rat_of_int (hm_seconds en - hm_seconds st) / rat_of_int n\<bar> / 2 ^ 53)
                    (1 / 2 ^ 1075)))
   \<and> (valid_time st \<and> valid_time en \<and> 0 < n \<and> n dvd hm_seconds en - hm_seconds st \<longrightarrow>
        dispatch_interval st en n =
          Inr (rat_of_int (hm_seconds en - hm_seconds st) / rat_of_int n))
   \<and> dispatch_interval START_TIME END_TIME POSTS_PER_DAY = Inr 5040
   \<and> dispatch_interval START_TIME END_TIME 0 = Inr 3600"
proof -
  have fallback: "dispatch_interval START_TIME END_TIME 0 = Inr 3600"
    by (simp add: dispatch_interval_eq)
  from dispatch_interval_eq [of st en n] hm_seconds_time_hm [of h m]
    dispatch_interval_near [of st en n] dispatch_interval_exact [of st en n]
    interval_value fallback
  show ?thesis by blast
qed

text \<open>
  The module's window with 7 posts per day, which divide its 50400 seconds, and with 11
  posts per day, which do not.
\<close>

theorem C5_dispatch_interval_amended_witness:
  "valid_time START_TIME \<and> valid_time END_TIME
   \<and> hm_seconds END_TIME - hm_seconds START_TIME = 50400
   \<and> dispatch_interval START_TIME END_TIME 7 = Inr 7200
   \<and> (\<exists>r. dispatch_interval START_TIME END_TIME 11 = Inr r
         \<and> \<bar>r - rat_of_int 50400 / rat_of_int 11\<bar>
             \<le> max (\<bar>rat_of_int 50400 / rat_of_int 11\<bar> / 2 ^ 53) (1 / 2 ^ 1075))"
proof -
  have v: "valid_time START_TIME" "valid_time END_TIME"
    by (simp_all add: valid_time_def START_TIME_def END_TIME_def time_hm_def)
  have len: "hm_seconds END_TIME - hm_seconds START_TIME = 50400"
    by (simp add: hm_seconds_def START_TIME_def END_TIME_def time_hm_def)
  have p7: "valid_time START_TIME \<and> valid_time END_TIME \<and> (0::int) < 7
      \<and> 7 dvd hm_seconds END_TIME - hm_seconds START_TIME"
    using v unfolding len by simp
  have p11: "valid_time START_TIME \<and> valid_time END_TIME \<and> (0::int) < 11"
    using v by simp
  note exact = C5_dispatch_interval_amended [of START_TIME END_TIME 7 0 0,
      THEN conjunct2, THEN conjunct2, THEN conjunct2, THEN conjunct1, THEN mp, OF p7]
  note near = C5_dispatch_interval_amended [of START_TIME END_TIME 11 0 0,
      THEN conjunct2, THEN conjunct2, THEN conjunct1, THEN mp, OF p11]
  have a: "dispatch_interval START_TIME END_TIME 7 = Inr 7200"
    using exact unfolding len by simp
  have b: "\<exists>r. dispatch_interval START_TIME END_TIME 11 = Inr r
         \<and> \<bar>r - rat_of_int 50400 / rat_of_int 11\<bar>
             \<le> max (\<bar>rat_of_int 50400 / rat_of_int 11\<bar> / 2 ^ 53) (1 / 2 ^ 1075)"
    using near unfolding len .
  from v len a b show ?thesis by (intro conjI)
qed

text \<open>
  C5 as the specification words it, with the interval equal to the time between the
  bounds divided by the number of posts, fails in two ways. A start of 08:00:30 leaves
  50370 seconds until 22:00, a tenth of which is 5037, but the seconds of the bound are
  not read and the interval is 5040. And with 11 posts per day for the module's window
  the interval is the double next to 50400 / 11, not that number.
\<close>

theorem C5_dispatch_interval_counterexample:
  "valid_time \<lparr>hour = 8, minute = 0, second = 30, microsecond = 0\<rparr>
   \<and> dispatch_interval \<lparr>hour = 8, minute = 0, second = 30, microsecond = 0\<rparr> END_TIME 10
       = Inr 5040
   \<and> (seconds_since_midnight END_TIME
        - seconds_since_midnight \<lparr>hour = 8, minute = 0, second = 30, microsecond = 0\<rparr>)
       / rat_of_int 10 = 5037
   \<and> dispatch_interval \<lparr>hour = 8, minute = 0, second = 30, microsecond = 0\<rparr> END_TIME 10
       \<noteq> Inr ((seconds_since_midnight END_TIME
                - seconds_since_midnight \<lparr>hour = 8, minute = 0, second = 30, microsecond = 0\<rparr>)
               / rat_of_int 10)
   \<and> dispatch_interval START_TIME END_TIME 11 = Inr (2518881183632291 / 2 ^ 39)
   \<and> dispatch_interval START_TIME END_TIME 11
       \<noteq> Inr ((seconds_since_midnight END_TIME - seconds_since_midnight START_TIME)
               / rat_of_int 11)"
proof -
  let ?t = "\<lparr>hour = 8, minute = 0, second = 30, microsecond = 0\<rparr>"
  have v: "valid_time ?t" by (simp add: valid_time_def)
  have a: "dispatch_interval ?t END_TIME 10 = Inr 5040"
    using true_div_exact [of 10 5040]
    by (simp add: dispatch_interval_def END_TIME_def time_hm_def)
  have b: "(seconds_since_midnight END_TIME - seconds_since_midnight ?t) / rat_of_int 10 = 5037"
    by (simp add: seconds_since_midnight_def instant_def END_TIME_def time_hm_def)
  have "dispatch_interval START_TIME END_TIME 11 = true_div 50400 11"
    by (simp add: dispatch_interval_def START_TIME_def END_TIME_def time_hm_def)
  then have c: "dispatch_interval START_TIME END_TIME 11 = Inr (2518881183632291 / 2 ^ 39)"
    by (simp only: true_div_50400_11)
  have d: "(seconds_since_midnight END_TIME - seconds_since_midnight START_TIME) / rat_of_int 11
             = 50400 / 11"
    by (simp add: seconds_since_midnight_def instant_def START_TIME_def END_TIME_def time_hm_def)
  have e: "(2518881183632291 / 2 ^ 39 :: rat) \<noteq> 50400 / 11" by simp
  have f: "dispatch_interval ?t END_TIME 10
       \<noteq> Inr ((seconds_since_midnight END_TIME - seconds_since_midnight ?t) / rat_of_int 10)"
    unfolding a b by simp
  have g: "dispatch_interval START_TIME END_TIME 11
       \<noteq> Inr ((seconds_since_midnight END_TIME - seconds_since_midnight START_TIME)
               / rat_of_int 11)"
    unfolding c d using e by simp
  from v a b f c g show ?thesis by (intro conjI)
qed

section \<open>Properties of the submission handler\<close>

lemma build_post_data_unsupported:
  "\<not> truthy (msg_photo m) \<Longrightarrow> \<not> truthy (msg_text m) \<Longrightarrow> build_post_data m = None"
  by (simp add: build_post_data_def)

text \<open>
  C7. A message with neither a photo nor a text leaves the queue as it was, so its size is
  unchanged, and the handler's only effect is one answer to the sender that rejects the
  message: the unsupported-type answer for the operator, the not-allowed answer for anyone
  else.
\<close>

theorem C7_unsupported_content_is_rejected:
  assumes "\<not> truthy (msg_photo m)" and "\<not> truthy (msg_text m)"
  shows "qsize (handle_new_post admin_id m s) = qsize s
         \<and> post_queue (handle_new_post admin_id m s) = post_queue s
         \<and> trace (handle_new_post admin_id m s) =
             trace s @ [Answer (if from_user_id m \<noteq> admin_id then NotAllowed else Unsupported)]"
  using assms
  by (simp add: handle_new_post_def build_post_data_unsupported message_answer_def emit_def
      qsize_def)

text \<open>A message of the operator that carries nothing the handler reads (a sticker, say).\<close>

theorem C7_unsupported_content_is_rejected_witness:
  "\<not> truthy (msg_photo \<lparr>from_user_id = 7, msg_photo = None, msg_caption = None, msg_text = None\<rparr>)
   \<and> \<not> truthy (msg_text \<lparr>from_user_id = 7, msg_photo = None, msg_caption = None, msg_text = None\<rparr>)
   \<and> post_queue (handle_new_post 7
        \<lparr>from_user_id = 7, msg_photo = None, msg_caption = None, msg_text = None\<rparr>
        \<lparr>post_queue = [Text ''a''], trace = []\<rparr>) = [Text ''a'']
   \<and> trace (handle_new_post 7
        \<lparr>from_user_id = 7, msg_photo = None, msg_caption = None, msg_text = None\<rparr>
        \<lparr>post_queue = [Text ''a''], trace = []\<rparr>) = [Answer Unsupported]"
proof -
  let ?m = "\<lparr>from_user_id = 7, msg_photo = None, msg_caption = None, msg_text = None\<rparr>"
  have h: "\<not> truthy (msg_photo ?m)" "\<not> truthy (msg_text ?m)"
    by (simp_all add: truthy_def)
  from C7_unsupported_content_is_rejected
    [OF h, of 7 "\<lparr>post_queue = [Text ''a''], trace = []\<rparr>"] h
  show ?thesis by simp
qed

text \<open>
  C10. A message of the operator that carries a photo is queued as a photo post, whether
  or not it also carries a text: the post holds the file id of the last photo size and the
  message's caption, or the empty string when the message has no caption.
\<close>

theorem C10_photo_takes_precedence:
  assumes "from_user_id m = admin_id" and "msg_photo m = Some sizes" and "sizes \<noteq> []"
  shows "handle_new_post admin_id m s =
           s\<lparr>post_queue := post_queue s @
                [Photo (file_id (last sizes)) (case msg_caption m of None \<Rightarrow> [] | Some c \<Rightarrow> c)],
             trace := trace s @ [Answer (Queued (length (post_queue s) + 1))]\<rparr>"
  using assms
  by (simp add: handle_new_post_def build_post_data_def truthy_def caption_or_empty_def
      queue_put_def message_answer_def emit_def qsize_def split: option.splits)

text \<open>A photo in two sizes, with a text and without a caption.\<close>

theorem C10_photo_takes_precedence_witness:
  "handle_new_post 7
     \<lparr>from_user_id = 7, msg_photo = Some [\<lparr>file_id = ''small''\<rparr>, \<lparr>file_id = ''large''\<rparr>],
      msg_caption = None, msg_text = Some ''hello''\<rparr>
     \<lparr>post_queue = [], trace = []\<rparr>
   = \<lparr>post_queue = [Photo ''large'' []], trace = [Answer (Queued 1)]\<rparr>"
  using C10_photo_takes_precedence [of
     "\<lparr>from_user_id = 7, msg_photo = Some [\<lparr>file_id = ''small''\<rparr>, \<lparr>file_id = ''large''\<rparr>],
      msg_caption = None, msg_text = Some ''hello''\<rparr>" 7
     "[\<lparr>file_id = ''small''\<rparr>, \<lparr>file_id = ''large''\<rparr>]" "\<lparr>post_queue = [], trace = []\<rparr>"]
  by simp

section \<open>Properties of the dispatcher\<close>

lemma send_post_to_channel_ok:
  "send_post_to_channel None post s =
     Return () (s\<lparr>trace := trace s @ [Call (api_call_of post) None, Log PostSentToChannel]\<rparr>)"
  by (cases post)
    (simp_all add: send_post_to_channel_def send_post_try_def bot_call_def emit_def logging_def)

lemma send_post_to_channel_failed:
  "send_post_to_channel (Some e) post s =
     Return () (s\<lparr>post_queue := post_queue s @ [post],
                  trace := trace s @ [Call (api_call_of post) (Some e),
                                      Log (ErrorSendingPost e), Sleep 5]\<rparr>)"
  by (cases post)
    (simp_all add: send_post_to_channel_def send_post_try_def send_post_except_def bot_call_def
      emit_def logging_def sleep_def queue_put_def)

lemma send_post_to_channel_returns: "\<exists>s'. send_post_to_channel out post s = Return () s'"
  by (cases out) (simp_all add: send_post_to_channel_ok send_post_to_channel_failed)

text \<open>
  C1. When the bot API call of a delivery raises, whatever the exception, the dispatcher
  logs it, sleeps 5 time units and then puts the post at the tail of the queue, and
  returns normally; a delivery returns normally whatever the outcome of the call. For the
  queue \<open>[A, B]\<close>: \<open>get\<close> removes \<open>A\<close> and leaves \<open>[B]\<close>, and the failed delivery of \<open>A\<close>
  leaves the queue \<open>[B, A]\<close>.
\<close>

theorem C1_failed_delivery_requeues_at_tail:
  "send_post_to_channel (Some e) post s =
     Return () (s\<lparr>post_queue := post_queue s @ [post],
                  trace := trace s @ [Call (api_call_of post) (Some e),
                                      Log (ErrorSendingPost e), Sleep 5]\<rparr>)
   \<and> (\<exists>s'. send_post_to_channel out post s = Return () s')
   \<and> queue_get (s\<lparr>post_queue := [A, B]\<rparr>) = Some (A, s\<lparr>post_queue := [B]\<rparr>)
   \<and> send_post_to_channel (Some e) A (s\<lparr>post_queue := [B]\<rparr>) =
       Return () (s\<lparr>post_queue := [B, A],
                    trace := trace s @ [Call (api_call_of A) (Some e),
                                        Log (ErrorSendingPost e), Sleep 5]\<rparr>)"
  using send_post_to_channel_returns [of out post s]
  by (simp add: send_post_to_channel_failed queue_get_def)

section \<open>Properties of the scheduler loop\<close>

lemma calls_append: "calls (xs @ ys) = calls xs @ calls ys"
  by (induction xs rule: calls.induct) simp_all

lemma scheduler_try_dispatch:
  assumes "clock ev = Inr now_time" and "is_within_window START_TIME END_TIME now_time"
    and "post_queue s = p # ps"
  shows "scheduler_try ev s =
     (case publish ev of
        None \<Rightarrow> Return () (s\<lparr>post_queue := ps,
            trace := trace s @ [Call (api_call_of p) None, Log PostSentToChannel,
                                Log (PostSentByScheduler 5040)]\<rparr>)
      | Some e \<Rightarrow> Return () (s\<lparr>post_queue := ps @ [p],
            trace := trace s @ [Call (api_call_of p) (Some e), Log (ErrorSendingPost e), Sleep 5,
                                Log (PostSentByScheduler 5040)]\<rparr>))"
  using assms
  by (cases "publish ev")
    (simp_all add: scheduler_try_def interval_value queue_empty_def queue_get_def
      send_post_to_channel_ok send_post_to_channel_failed logging_def emit_def)

lemma scheduler_try_wait:
  assumes "clock ev = Inr now_time"
    and "\<not> is_within_window START_TIME END_TIME now_time \<or> post_queue s = []"
  shows "scheduler_try ev s =
           Return () (s\<lparr>trace := trace s @ [Log SchedulerWaiting, Sleep 30]\<rparr>)"
  using assms
  by (auto simp add: scheduler_try_def interval_value queue_empty_def logging_def sleep_def
      emit_def)

lemma scheduler_try_fault:
  assumes "clock ev = Inl e"
  shows "scheduler_try ev s = Raise e s"
  using assms by (simp add: scheduler_try_def interval_value)

lemma scheduler_iteration_caught:
  assumes "scheduler_try ev s = Raise e s1"
  shows "scheduler_iteration ev s =
           Return () (s1\<lparr>trace := trace s1 @ [Log (ErrorInSchedulerLoop e), Sleep 60]\<rparr>)"
  using assms
  by (simp add: scheduler_iteration_def scheduler_except_def logging_def sleep_def emit_def)

text \<open>What one iteration does, in every case.\<close>

lemma scheduler_iteration_cases:
  "scheduler_iteration ev s =
     Return () (case clock ev of
        Inl e \<Rightarrow> s\<lparr>trace := trace s @ [Log (ErrorInSchedulerLoop e), Sleep 60]\<rparr>
      | Inr now_time \<Rightarrow>
          (case post_queue s of
             [] \<Rightarrow> s\<lparr>trace := trace s @ [Log SchedulerWaiting, Sleep 30]\<rparr>
           | p # ps \<Rightarrow>
               if is_within_window START_TIME END_TIME now_time then
                 (case publish ev of
                    None \<Rightarrow> s\<lparr>post_queue := ps,
                      trace := trace s @ [Call (api_call_of p) None, Log PostSentToChannel,
                                Log (PostSentByScheduler 5040)]\<rparr>
                  | Some e \<Rightarrow> s\<lparr>post_queue := ps @ [p],
                      trace := trace s @ [Call (api_call_of p) (Some e), Log (ErrorSendingPost e),
                                Sleep 5, Log (PostSentByScheduler 5040)]\<rparr>)
               else s\<lparr>trace := trace s @ [Log SchedulerWaiting, Sleep 30]\<rparr>))"
proof (cases "clock ev")
  case (Inl e)
  from scheduler_iteration_caught [OF scheduler_try_fault [OF Inl]] Inl
  show ?thesis by simp
next
  case (Inr now_time)
  show ?thesis
  proof (cases "is_within_window START_TIME END_TIME now_time \<and> post_queue s \<noteq> []")
    case True
    then obtain p ps where q: "post_queue s = p # ps" by (cases "post_queue s") auto
    from True scheduler_try_dispatch [OF Inr _ q] Inr q show ?thesis
      by (simp add: scheduler_iteration_def split: option.splits)
  next
    case False
    then have "\<not> is_within_window START_TIME END_TIME now_time \<or> post_queue s = []" by simp
    from scheduler_try_wait [OF Inr this] Inr False show ?thesis
      by (auto simp add: scheduler_iteration_def split: list.splits)
  qed
qed

lemma scheduler_iteration_returns:
  "\<exists>s'. scheduler_iteration ev s = Return () s'
     \<and> length (calls (trace s')) \<le> length (calls (trace s)) + 1
     \<and> length (post_queue s) \<le> length (post_queue s') + 1"
  by (simp add: scheduler_iteration_cases calls_append split: sum.splits list.splits option.splits)

lemma scheduler_steps_returns: "\<exists>s'. scheduler_steps n evs i s = Return () s'"
proof (induction n arbitrary: i s)
  case 0
  show ?case by simp
next
  case (Suc n)
  obtain s1 where "scheduler_iteration (evs i) s = Return () s1"
    using scheduler_iteration_returns by blast
  with Suc.IH [of "Suc i" s1] show ?case by simp
qed

text \<open>
  The loop returns nothing: by the induction principle of its definition, a result of the
  loop would be the result of the loop started one iteration later.
\<close>

lemma scheduler_no_result: "scheduler evs i s = Some y \<Longrightarrow> False"
proof (rule scheduler.raw_induct [where P = "\<lambda>_ _ _ _. False"])
  fix scheduler' :: "(nat \<Rightarrow> env) \<Rightarrow> nat \<Rightarrow> world \<Rightarrow> (exn \<times> world) option"
    and evs i s y
  assume IH: "\<And>evs i s y. scheduler' evs i s = Some y \<Longrightarrow> False"
    and step: "(case scheduler_iteration (evs i) s of
        Return _ s1 \<Rightarrow> scheduler' evs (Suc i) s1
      | Raise e s1 \<Rightarrow> Some (e, s1)
      | Pending \<Rightarrow> None) = Some y"
  obtain s1 where "scheduler_iteration (evs i) s = Return () s1"
    using scheduler_iteration_returns by blast
  with step have "scheduler' evs (Suc i) s1 = Some y" by simp
  then show False by (rule IH)
qed

lemma scheduler_diverges: "scheduler evs i s = None"
  using scheduler_no_result [of evs i s] by (cases "scheduler evs i s") auto

text \<open>
  C2. One iteration of the scheduler loop, in a world \<open>s\<close>:
  \<^item> when the clock reads a time inside the window and the queue is \<open>p # ps\<close>, the iteration
    removes \<open>p\<close>, makes the one bot API call that delivers \<open>p\<close> and sleeps only as the
    delivery does (not at all when the call succeeds, 5 when it fails);
  \<^item> when the clock reads a time outside the window, or the queue is empty, the iteration
    leaves the queue alone, makes no call and sleeps 30;
  \<^item> when the body of the iteration raises, the iteration logs the exception, sleeps 60
    and returns normally;
  \<^item> in every case the iteration returns normally, makes at most one bot API call and
    removes at most one post.

  So the loop is still running after any number of iterations, and it never returns.
\<close>

theorem C2_scheduler_loop:
  "(clock ev = Inr now_time \<and> is_within_window START_TIME END_TIME now_time
      \<and> post_queue s = p # ps \<longrightarrow>
      scheduler_iteration ev s =
        (case publish ev of
           None \<Rightarrow> Return () (s\<lparr>post_queue := ps,
               trace := trace s @ [Call (api_call_of p) None, Log PostSentToChannel,
                                   Log (PostSentByScheduler 5040)]\<rparr>)
         | Some e \<Rightarrow> Return () (s\<lparr>post_queue := ps @ [p],
               trace := trace s @ [Call (api_call_of p) (Some e), Log (ErrorSendingPost e),
                                   Sleep 5, Log (PostSentByScheduler 5040)]\<rparr>)))
   \<and> (clock ev = Inr now_time
      \<and> (\<not> is_within_window START_TIME END_TIME now_time \<or> post_queue s = []) \<longrightarrow>
      scheduler_iteration ev s =
        Return () (s\<lparr>trace := trace s @ [Log SchedulerWaiting, Sleep 30]\<rparr>))
   \<and> (scheduler_try ev s = Raise e s1 \<longrightarrow>
      scheduler_iteration ev s =
        Return () (s1\<lparr>trace := trace s1 @ [Log (ErrorInSchedulerLoop e), Sleep 60]\<rparr>))
   \<and> (\<exists>s'. scheduler_iteration ev s = Return () s'
          \<and> length (calls (trace s')) \<le> length (calls (trace s)) + 1
          \<and> length (post_queue s) \<le> length (post_queue s') + 1)
   \<and> (\<exists>s'. scheduler_steps n evs i s = Return () s')
   \<and> scheduler evs i s = None"
proof -
  have dispatch: "clock ev = Inr now_time \<and> is_within_window START_TIME END_TIME now_time
      \<and> post_queue s = p # ps \<longrightarrow>
      scheduler_iteration ev s =
        (case publish ev of
           None \<Rightarrow> Return () (s\<lparr>post_queue := ps,
               trace := trace s @ [Call (api_call_of p) None, Log PostSentToChannel,
                                   Log (PostSentByScheduler 5040)]\<rparr>)
         | Some e \<Rightarrow> Return () (s\<lparr>post_queue := ps @ [p],
               trace := trace s @ [Call (api_call_of p) (Some e), Log (ErrorSendingPost e),
                                   Sleep 5, Log (PostSentByScheduler 5040)]\<rparr>))"
    by (simp add: scheduler_iteration_cases split: option.splits)
  have wait: "clock ev = Inr now_time
      \<and> (\<not> is_within_window START_TIME END_TIME now_time \<or> post_queue s = []) \<longrightarrow>
      scheduler_iteration ev s =
        Return () (s\<lparr>trace := trace s @ [Log SchedulerWaiting, Sleep 30]\<rparr>)"
    by (auto simp add: scheduler_iteration_cases split: list.splits)
  have caught: "scheduler_try ev s = Raise e s1 \<longrightarrow>
      scheduler_iteration ev s =
        Return () (s1\<lparr>trace := trace s1 @ [Log (ErrorInSchedulerLoop e), Sleep 60]\<rparr>)"
    using scheduler_iteration_caught by blast
  from dispatch wait caught scheduler_iteration_returns [of ev s]
    scheduler_steps_returns [of n evs i s] scheduler_diverges [of evs i s]
  show ?thesis by blast
qed

text \<open>
  The queue \<open>[a, b]\<close> at noon with a working network, at 23:00, and with a clock that
  raises.
\<close>

theorem C2_scheduler_loop_witness:
  "scheduler_iteration \<lparr>clock = Inr (time_hm 12 0), publish = None\<rparr>
      \<lparr>post_queue = [Text ''a'', Text ''b''], trace = []\<rparr>
     = Return () \<lparr>post_queue = [Text ''b''],
         trace = [Call (SendMessage ''a'') None, Log PostSentToChannel,
                  Log (PostSentByScheduler 5040)]\<rparr>
   \<and> scheduler_iteration \<lparr>clock = Inr (time_hm 23 0), publish = None\<rparr>
      \<lparr>post_queue = [Text ''a'', Text ''b''], trace = []\<rparr>
     = Return () \<lparr>post_queue = [Text ''a'', Text ''b''],
         trace = [Log SchedulerWaiting, Sleep 30]\<rparr>
   \<and> scheduler_iteration \<lparr>clock = Inl ''fault'', publish = None\<rparr>
      \<lparr>post_queue = [Text ''a'', Text ''b''], trace = []\<rparr>
     = Return () \<lparr>post_queue = [Text ''a'', Text ''b''],
         trace = [Log (ErrorInSchedulerLoop ''fault''), Sleep 60]\<rparr>"
proof -
  let ?s = "\<lparr>post_queue = [Text ''a'', Text ''b''], trace = []\<rparr>"
  have in_window: "is_within_window START_TIME END_TIME (time_hm 12 0)"
    and outside: "\<not> is_within_window START_TIME END_TIME (time_hm 23 0)"
    by (simp_all add: is_within_window_def time_le_def START_TIME_def END_TIME_def time_hm_def)
  have fault: "scheduler_try \<lparr>clock = Inl ''fault'', publish = None\<rparr> ?s = Raise ''fault'' ?s"
    by (simp add: scheduler_try_def interval_value)
  from in_window
    C2_scheduler_loop [of "\<lparr>clock = Inr (time_hm 12 0), publish = None\<rparr>" "time_hm 12 0" ?s
      "Text ''a''" "[Text ''b'']"]
  have a: "scheduler_iteration \<lparr>clock = Inr (time_hm 12 0), publish = None\<rparr> ?s
     = Return () \<lparr>post_queue = [Text ''b''],
         trace = [Call (SendMessage ''a'') None, Log PostSentToChannel,
                  Log (PostSentByScheduler 5040)]\<rparr>"
    by simp
  from outside
    C2_scheduler_loop [of "\<lparr>clock = Inr (time_hm 23 0), publish = None\<rparr>" "time_hm 23 0" ?s]
  have b: "scheduler_iteration \<lparr>clock = Inr (time_hm 23 0), publish = None\<rparr> ?s
     = Return () \<lparr>post_queue = [Text ''a'', Text ''b''],
         trace = [Log SchedulerWaiting, Sleep 30]\<rparr>"
    by simp
  from fault
    C2_scheduler_loop [of "\<lparr>clock = Inl ''fault'', publish = None\<rparr>" _ ?s _ _ "''fault''" ?s]
  have c: "scheduler_iteration \<lparr>clock = Inl ''fault'', publish = None\<rparr> ?s
     = Return () \<lparr>post_queue = [Text ''a'', Text ''b''],
         trace = [Log (ErrorInSchedulerLoop ''fault''), Sleep 60]\<rparr>"
    by simp
  from a b c show ?thesis by blast
qed

section \<open>Properties of the manual trigger\<close>

lemma run_scheduler_endpoint_empty:
  assumes "post_queue s = []"
  shows "run_scheduler_endpoint out s =
           Return QueueIsEmpty (s\<lparr>trace := trace s @ [Log EndpointQueueEmpty]\<rparr>)"
  using assms
  by (simp add: run_scheduler_endpoint_def run_scheduler_try_def queue_empty_def logging_def
      emit_def)

lemma run_scheduler_endpoint_sent:
  assumes "post_queue s = p # ps"
  shows "run_scheduler_endpoint None s =
           Return (PostSentFromQueue (length ps))
             (s\<lparr>post_queue := ps,
                trace := trace s @ [Call (api_call_of p) None, Log PostSentToChannel,
                                    Log EndpointPostSent]\<rparr>)"
  using assms
  by (simp add: run_scheduler_endpoint_def run_scheduler_try_def queue_empty_def queue_get_def
      send_post_to_channel_ok logging_def emit_def qsize_def)

lemma run_scheduler_endpoint_failed:
  assumes "post_queue s = p # ps"
  shows "run_scheduler_endpoint (Some e) s =
           Return (PostSentFromQueue (length ps + 1))
             (s\<lparr>post_queue := ps @ [p],
                trace := trace s @ [Call (api_call_of p) (Some e), Log (ErrorSendingPost e),
                                    Sleep 5, Log EndpointPostSent]\<rparr>)"
  using assms
  by (simp add: run_scheduler_endpoint_def run_scheduler_try_def queue_empty_def queue_get_def
      send_post_to_channel_failed logging_def emit_def qsize_def)

lemma run_scheduler_endpoint_one_call:
  assumes "post_queue s = p # ps"
  shows "\<exists>r s'. run_scheduler_endpoint out s = Return r s'
           \<and> calls (trace s') = calls (trace s) @ [api_call_of p]"
  using assms run_scheduler_endpoint_sent [of s p ps] run_scheduler_endpoint_failed [of s p ps]
  by (cases out) (simp_all add: calls_append)

text \<open>
  C6. The manual trigger takes no reading of the clock, so the window plays no part in
  it. On an empty queue it answers that the queue is empty, makes no bot API call and
  leaves the queue empty. On a queue \<open>p # ps\<close> it removes \<open>p\<close> and makes exactly one bot
  API call, the one that delivers \<open>p\<close>; when that call succeeds, the queue is \<open>ps\<close> and the
  answer reports the size of the queue before the request minus one.
\<close>

theorem C6_manual_trigger:
  "(post_queue s = [] \<longrightarrow>
      run_scheduler_endpoint out s =
        Return QueueIsEmpty (s\<lparr>trace := trace s @ [Log EndpointQueueEmpty]\<rparr>))
   \<and> (post_queue s = p # ps \<longrightarrow>
      run_scheduler_endpoint None s =
        Return (PostSentFromQueue (qsize s - 1))
          (s\<lparr>post_queue := ps,
             trace := trace s @ [Call (api_call_of p) None, Log PostSentToChannel,
                                 Log EndpointPostSent]\<rparr>))
   \<and> (post_queue s = p # ps \<longrightarrow>
      (\<exists>r s'. run_scheduler_endpoint out s = Return r s'
         \<and> calls (trace s') = calls (trace s) @ [api_call_of p]))"
  using run_scheduler_endpoint_empty [of s out] run_scheduler_endpoint_sent [of s p ps]
    run_scheduler_endpoint_one_call [of s p ps out]
  by (auto simp add: qsize_def)

text \<open>The empty queue, and a queue of a photo and a text.\<close>

theorem C6_manual_trigger_witness:
  "run_scheduler_endpoint None \<lparr>post_queue = [], trace = []\<rparr>
     = Return QueueIsEmpty \<lparr>post_queue = [], trace = [Log EndpointQueueEmpty]\<rparr>
   \<and> run_scheduler_endpoint None \<lparr>post_queue = [Photo ''f'' ''c'', Text ''b''], trace = []\<rparr>
     = Return (PostSentFromQueue 1)
         \<lparr>post_queue = [Text ''b''],
          trace = [Call (SendPhoto ''f'' ''c'') None, Log PostSentToChannel,
                   Log EndpointPostSent]\<rparr>
   \<and> (\<exists>r s'. run_scheduler_endpoint (Some ''timeout'')
                 \<lparr>post_queue = [Photo ''f'' ''c'', Text ''b''], trace = []\<rparr> = Return r s'
         \<and> calls (trace s') = [SendPhoto ''f'' ''c''])"
  using C6_manual_trigger [of "\<lparr>post_queue = [], trace = []\<rparr>" None]
    C6_manual_trigger [of "\<lparr>post_queue = [Photo ''f'' ''c'', Text ''b''], trace = []\<rparr>"
      None "Photo ''f'' ''c''" "[Text ''b'']"]
    C6_manual_trigger [of "\<lparr>post_queue = [Photo ''f'' ''c'', Text ''b''], trace = []\<rparr>"
      "Some ''timeout''" "Photo ''f'' ''c''" "[Text ''b'']"]
  by (simp add: qsize_def)

text \<open>
  C9. When the manual trigger removes a post and its delivery fails, the answer is still
  the one of a sent post, and the size it reports is the size of the queue before the
  request: the dispatcher has put the post back at the tail before the size is read.
\<close>

theorem C9_failed_manual_delivery_reports_success:
  assumes "post_queue s = p # ps"
  shows "run_scheduler_endpoint (Some e) s =
           Return (PostSentFromQueue (qsize s))
             (s\<lparr>post_queue := ps @ [p],
                trace := trace s @ [Call (api_call_of p) (Some e), Log (ErrorSendingPost e),
                                    Sleep 5, Log EndpointPostSent]\<rparr>)"
  using assms run_scheduler_endpoint_failed [of s p ps e] by (simp add: qsize_def)

theorem C9_failed_manual_delivery_reports_success_witness:
  "run_scheduler_endpoint (Some ''timeout'') \<lparr>post_queue = [Text ''a'', Text ''b''], trace = []\<rparr>
     = Return (PostSentFromQueue 2)
         \<lparr>post_queue = [Text ''b'', Text ''a''],
          trace = [Call (SendMessage ''a'') (Some ''timeout''), Log (ErrorSendingPost ''timeout''),
                   Sleep 5, Log EndpointPostSent]\<rparr>"
  using C9_failed_manual_delivery_reports_success
    [of "\<lparr>post_queue = [Text ''a'', Text ''b''], trace = []\<rparr>" "Text ''a''" "[Text ''b'']"
      "''timeout''"]
  by (simp add: qsize_def)

end
